theory Spec2Isabelle
  imports Main "HOL-Library.Char_ord" "HOL-Library.List_Lexorder" "HOL-Library.Multiset"
begin

section \<open>Python strings\<close>

text \<open>
  A Python \<open>str\<close> is modelled as a \<^typ>\<open>string\<close>: a list of 8-bit characters, read as the
  code points 0..255.  The character classes below are those of CPython on that range.
\<close>

text \<open>\<open>str.isspace\<close> on one character, which is also the class \<open>\s\<close> of \<open>re\<close> on a \<open>str\<close> pattern.\<close>

definition py_isspace :: "char \<Rightarrow> bool" where
  "py_isspace c = (let n = (of_char c :: nat) in
     (9 \<le> n \<and> n \<le> 13) \<or> (28 \<le> n \<and> n \<le> 32) \<or> n = 133 \<or> n = 160)"

text \<open>The class \<open>\d\<close> of \<open>re\<close>: the decimal digits (only 0-9 below code point 256).\<close>

definition py_isdigit :: "char \<Rightarrow> bool" where
  "py_isdigit c = (let n = (of_char c :: nat) in 48 \<le> n \<and> n \<le> 57)"

text \<open>\<open>str.lower\<close> on one character.\<close>

definition py_lower_char :: "char \<Rightarrow> char" where
  "py_lower_char c = (let n = (of_char c :: nat) in
     if (65 \<le> n \<and> n \<le> 90) \<or> (192 \<le> n \<and> n \<le> 222 \<and> n \<noteq> 215)
     then char_of (n + 32) else c)"

definition py_lower :: "string \<Rightarrow> string" where
  "py_lower s = map py_lower_char s"

text \<open>\<open>s.startswith(p)\<close>.\<close>

definition startswith :: "string \<Rightarrow> string \<Rightarrow> bool" where
  "startswith s p = (take (length p) s = p)"

text \<open>\<open>p in s\<close> for two strings.\<close>

fun py_in :: "string \<Rightarrow> string \<Rightarrow> bool" where
  "py_in p [] = (p = [])"
| "py_in p (c # cs) = (startswith (c # cs) p \<or> py_in p cs)"

section \<open>The regular expressions of the \<open>re\<close> module\<close>

text \<open>
  The patterns of the program use literal text, character classes, sequence, alternation,
  greedy and lazy repetition of one character class, the greedy optional group, the anchor
  \<open>^\<close> and capturing groups.  \<open>re\<close> matches by backtracking: the matcher below returns
  every way a pattern matches at the start of a string, in the order in which backtracking
  tries them, so the head of that list is the match \<open>re\<close> reports.
\<close>

datatype cclass =
    Chr char
  | Space
  | Digit
  | Dot
  | Rng char char
  | AnyOf "cclass list"
  | NoneOf "cclass list"

fun cmatch :: "cclass \<Rightarrow> char \<Rightarrow> bool" where
  "cmatch (Chr a) c = (c = a)"
| "cmatch Space c = py_isspace c"
| "cmatch Digit c = py_isdigit c"
| "cmatch Dot c = (c \<noteq> CHR 0x0A)"
| "cmatch (Rng a b) c = (a \<le> c \<and> c \<le> b)"
| "cmatch (AnyOf cs) c = list_ex (\<lambda>x. cmatch x c) cs"
| "cmatch (NoneOf cs) c = (\<not> list_ex (\<lambda>x. cmatch x c) cs)"

datatype regex =
    Eps
  | C cclass
  | Lit string
  | Seq regex regex
  | Alt regex regex
  | Star cclass
  | Plus cclass
  | LazyStar cclass
  | Opt regex
  | Bol
  | Group regex

text \<open>
  The strings left after a greedy (longest first) and after a lazy (shortest first)
  repetition of a character class.
\<close>

fun star_greedy :: "cclass \<Rightarrow> string \<Rightarrow> string list" where
  "star_greedy c [] = [[]]"
| "star_greedy c (x # xs) = (if cmatch c x then star_greedy c xs @ [x # xs] else [x # xs])"

fun star_lazy :: "cclass \<Rightarrow> string \<Rightarrow> string list" where
  "star_lazy c [] = [[]]"
| "star_lazy c (x # xs) = (x # xs) # (if cmatch c x then star_lazy c xs else [])"

text \<open>
  \<open>rmatch n r (s, g)\<close>: the ways \<open>r\<close> matches at the start of \<open>s\<close>, each as the rest of the
  string and the groups captured so far (\<open>g\<close> and the new ones, in the order in which the
  groups close).  \<open>n\<close> is the length of the whole subject: without \<open>re.MULTILINE\<close> the anchor
  \<open>^\<close> matches at its start only.
\<close>

fun rmatch :: "nat \<Rightarrow> regex \<Rightarrow> string \<times> string list \<Rightarrow> (string \<times> string list) list" where
  "rmatch n Eps (s, g) = [(s, g)]"
| "rmatch n (C c) (s, g) = (case s of [] \<Rightarrow> [] | x # xs \<Rightarrow> if cmatch c x then [(xs, g)] else [])"
| "rmatch n (Lit l) (s, g) = (if startswith s l then [(drop (length l) s, g)] else [])"
| "rmatch n (Seq a b) (s, g) = concat (map (rmatch n b) (rmatch n a (s, g)))"
| "rmatch n (Alt a b) (s, g) = rmatch n a (s, g) @ rmatch n b (s, g)"
| "rmatch n (Star c) (s, g) = map (\<lambda>r. (r, g)) (star_greedy c s)"
| "rmatch n (Plus c) (s, g) =
     (case s of [] \<Rightarrow> [] | x # xs \<Rightarrow> if cmatch c x then map (\<lambda>r. (r, g)) (star_greedy c xs) else [])"
| "rmatch n (LazyStar c) (s, g) = map (\<lambda>r. (r, g)) (star_lazy c s)"
| "rmatch n (Opt r) (s, g) = rmatch n r (s, g) @ [(s, g)]"
| "rmatch n Bol (s, g) = (if length s = n then [(s, g)] else [])"
| "rmatch n (Group r) (s, g) =
     map (\<lambda>(s', g'). (s', g' @ [take (length s - length s') s])) (rmatch n r (s, g))"

fun seqs :: "regex list \<Rightarrow> regex" where
  "seqs [] = Eps"
| "seqs [r] = r"
| "seqs (r # rs) = Seq r (seqs rs)"

fun alts :: "regex list \<Rightarrow> regex" where
  "alts [] = Eps"
| "alts [r] = r"
| "alts (r # rs) = Alt r (alts rs)"

text \<open>
  The scan of \<open>re.split\<close> and \<open>re.sub\<close>: the leftmost match from the current position is
  found, the text before it is one piece, and the scan goes on behind the match.  \<open>skip\<close>
  counts the characters of the current match still to pass, \<open>acc\<close> is the piece read so far
  (reversed).  None of the patterns of the program matches the empty string, so a match
  that consumes nothing is passed over here.
\<close>

fun rscan :: "nat \<Rightarrow> regex \<Rightarrow> nat \<Rightarrow> string \<Rightarrow> string \<Rightarrow> string list" where
  "rscan n r skip acc [] = [rev acc]"
| "rscan n r (Suc k) acc (c # cs) = rscan n r k acc cs"
| "rscan n r 0 acc (c # cs) =
     (case rmatch n r (c # cs, []) of
        [] \<Rightarrow> rscan n r 0 (c # acc) cs
      | (rest, g) # other \<Rightarrow>
          if length rest < length (c # cs)
          then rev acc # rscan n r (length cs - length rest) [] cs
          else rscan n r 0 (c # acc) cs)"

text \<open>\<open>re.split(r, s)\<close> for a pattern without capturing groups.\<close>

definition re_split :: "regex \<Rightarrow> string \<Rightarrow> string list" where
  "re_split r s = rscan (length s) r 0 [] s"

text \<open>\<open>re.sub(r, '', s)\<close>: the pieces between the matches, joined.\<close>

definition re_sub_empty :: "regex \<Rightarrow> string \<Rightarrow> string" where
  "re_sub_empty r s = concat (rscan (length s) r 0 [] s)"

text \<open>
  \<open>re.search(r, s)\<close>: the match at the leftmost position where \<open>r\<close> matches, as the list
  of its groups; \<open>None\<close> when there is none.
\<close>

fun rsearch_from :: "nat \<Rightarrow> regex \<Rightarrow> string \<Rightarrow> string list option" where
  "rsearch_from n r [] = (case rmatch n r ([], []) of [] \<Rightarrow> None | (rest, g) # other \<Rightarrow> Some g)"
| "rsearch_from n r (c # cs) =
     (case rmatch n r (c # cs, []) of [] \<Rightarrow> rsearch_from n r cs | (rest, g) # other \<Rightarrow> Some g)"

definition re_search :: "regex \<Rightarrow> string \<Rightarrow> string list option" where
  "re_search r s = rsearch_from (length s) r s"

text \<open>The least number of characters a match of a pattern consumes.\<close>

fun min_len :: "regex \<Rightarrow> nat" where
  "min_len Eps = 0"
| "min_len (C c) = 1"
| "min_len (Lit l) = length l"
| "min_len (Seq a b) = min_len a + min_len b"
| "min_len (Alt a b) = min (min_len a) (min_len b)"
| "min_len (Star c) = 0"
| "min_len (Plus c) = 1"
| "min_len (LazyStar c) = 0"
| "min_len (Opt r) = 0"
| "min_len Bol = 0"
| "min_len (Group r) = min_len r"

section \<open>More of Python's strings\<close>

text \<open>\<open>s.strip()\<close>\<close>

definition py_strip :: "string \<Rightarrow> string" where
  "py_strip s = rev (dropWhile py_isspace (rev (dropWhile py_isspace s)))"

text \<open>
  \<open>s.split()\<close>: the words of \<open>s\<close>, separated by runs of whitespace; \<open>w\<close> is the word read so
  far (reversed).
\<close>

fun split_ws :: "string \<Rightarrow> string \<Rightarrow> string list" where
  "split_ws w [] = (if w = [] then [] else [rev w])"
| "split_ws w (c # cs) =
     (if py_isspace c then (if w = [] then split_ws [] cs else rev w # split_ws [] cs)
      else split_ws (c # w) cs)"

definition py_split :: "string \<Rightarrow> string list" where
  "py_split s = split_ws [] s"

text \<open>\<open>s.replace(old, new)\<close> for a non-empty \<open>old\<close>; \<open>skip\<close> as in \<open>rscan\<close>.\<close>

fun replace_scan :: "string \<Rightarrow> string \<Rightarrow> nat \<Rightarrow> string \<Rightarrow> string" where
  "replace_scan old new skip [] = []"
| "replace_scan old new (Suc k) (c # cs) = replace_scan old new k cs"
| "replace_scan old new 0 (c # cs) =
     (if startswith (c # cs) old then new @ replace_scan old new (length old - 1) cs
      else c # replace_scan old new 0 cs)"

definition py_replace :: "string \<Rightarrow> string \<Rightarrow> string \<Rightarrow> string" where
  "py_replace s old new = replace_scan old new 0 s"

text \<open>\<open>sep.join(xs)\<close>\<close>

fun py_join :: "string \<Rightarrow> string list \<Rightarrow> string" where
  "py_join sep [] = []"
| "py_join sep [x] = x"
| "py_join sep (x # xs) = x @ sep @ py_join sep xs"

section \<open>media/utils.py: collect\_complete\_story\<close>

text \<open>The three patterns of \<open>segment_patterns\<close> (lines 24-33), in their order.\<close>

definition pattern_segment :: regex where
  "pattern_segment =
     seqs [alts [Lit ''Segment'', Lit ''SEGMENT'', Lit ''Scene'', Lit ''SCENE''],
           Plus Space, Plus Digit,
           Opt (seqs [Star Space, C (AnyOf [Chr CHR ''-'', Chr CHR '':'']),
                      Star (NoneOf [Rng CHR ''a'' CHR ''z'', Rng CHR ''A'' CHR ''Z'',
                                    Rng CHR ''0'' CHR ''9'']),
                      Star Space, Plus (NoneOf [Chr CHR 0x22, Chr CHR 0x27])])]"

definition pattern_number :: regex where
  "pattern_number =
     seqs [Alt Bol (C (Chr CHR 0x0A)), Star Space,
           Alt (Seq (Plus Digit) (C (AnyOf [Chr CHR ''.'', Chr CHR '')'', Chr CHR '']''])))
               (seqs [C (Chr CHR ''[''), Plus Digit, C (Chr CHR '']'')]),
           Plus Space]"

definition pattern_image :: regex where
  "pattern_image =
     seqs [C (Chr CHR ''[''),
           alts [Lit ''Image'', Lit ''IMG'', Lit ''Picture'', Lit ''PIC''],
           Star Space, Plus Digit, Star (NoneOf [Chr CHR '']'']), C (Chr CHR '']'')]"

definition segment_patterns :: "regex list" where
  "segment_patterns = [pattern_segment, pattern_number, pattern_image]"

text \<open>Line 53: \<open>\n\s*\n\<close>, and line 77: \<open>\[(.*?)\]\<close>.\<close>

definition pattern_paragraph :: regex where
  "pattern_paragraph = seqs [C (Chr CHR 0x0A), Star Space, C (Chr CHR 0x0A)]"

definition pattern_bracket :: regex where
  "pattern_bracket = seqs [C (Chr CHR ''[''), Group (LazyStar Dot), C (Chr CHR '']'')]"

text \<open>Lines 40 and 54: \<open>[s.strip() for s in xs if s.strip()]\<close>.\<close>

definition strip_nonempty :: "string list \<Rightarrow> string list" where
  "strip_nonempty xs = filter (\<lambda>s. s \<noteq> []) (map py_strip xs)"

text \<open>
  The loop over the patterns (lines 38-49): the pieces of the first pattern that gives at
  least three non-empty pieces, the empty list when no pattern does.
\<close>

fun try_patterns :: "regex list \<Rightarrow> string \<Rightarrow> string list" where
  "try_patterns [] cleaned_text = []"
| "try_patterns (pattern # patterns) cleaned_text =
     (let potential_segments = strip_nonempty (re_split pattern cleaned_text)
      in if length potential_segments \<ge> 3 then potential_segments
         else try_patterns patterns cleaned_text)"

text \<open>Lines 51-55: the segments, with the fallback to the split on blank lines.\<close>

definition find_segments :: "string \<Rightarrow> string list" where
  "find_segments cleaned_text =
     (let segments = try_patterns segment_patterns cleaned_text
      in if segments = [] then strip_nonempty (re_split pattern_paragraph cleaned_text)
         else segments)"

text \<open>Lines 62-67: the test of a segment that is skipped.\<close>

definition skipped :: "string \<Rightarrow> bool" where
  "skipped segment =
     (length (py_split segment) < 5 \<or>
      startswith segment ''Image generation:'' \<or>
      startswith segment ''Note:'' \<or>
      py_in ''end of story'' (py_lower segment) \<or>
      py_in ''```'' segment)"

text \<open>Lines 69-76: the cleaning of a segment that is kept.\<close>

definition clean :: "string \<Rightarrow> string" where
  "clean segment =
     re_sub_empty pattern_bracket
       (re_sub_empty pattern_image (py_strip (py_replace segment ''```'' [])))"

text \<open>The loop of lines 60-80.\<close>

fun cleanup :: "string list \<Rightarrow> string list" where
  "cleanup [] = []"
| "cleanup (segment # segments) =
     (if skipped segment then cleanup segments
      else let clean_segment = clean segment
           in if clean_segment \<noteq> [] then clean_segment # cleanup segments
              else cleanup segments)"

text \<open>
  A segment reaches the result of the loop when it is not skipped and its cleaned text is not
  empty (lines 62-80).
\<close>

definition kept :: "string \<Rightarrow> bool" where
  "kept segment = (\<not> skipped segment \<and> clean segment \<noteq> [])"

text \<open>
  \<open>collect_complete_story\<close>: the list of segments (\<open>Inl\<close>) with \<open>return_segments\<close>, the
  story text (\<open>Inr\<close>) without.
\<close>

definition collect_complete_story :: "string \<Rightarrow> bool \<Rightarrow> string list + string" where
  "collect_complete_story raw_text return_segments =
     (let cleaned_text = py_strip raw_text;
          story_segments = cleanup (find_segments cleaned_text)
      in if return_segments then Inl story_segments
         else let full_story = py_join [CHR 0x0A, CHR 0x0A] story_segments
              in if length full_story < 100 \<and> length cleaned_text > 100 then Inr cleaned_text
                 else Inr full_story)"

section \<open>ai/prompt\_generator.py: retry\_api\_call\<close>

text \<open>
  The exceptions an operation can raise, by the class the handlers of \<open>retry_api_call\<close>
  tell apart, each with its message.  \<open>OtherException\<close> is any other subclass of
  \<open>Exception\<close>; \<open>BaseExceptionOnly\<close> is a \<open>BaseException\<close> that is not an \<open>Exception\<close>
  (\<open>KeyboardInterrupt\<close>, \<open>SystemExit\<close>).  The three classes of \<open>genai_errors\<close> are declared
  outside the repository; they are taken as subclasses of \<open>Exception\<close> none of which
  inherits from another.
\<close>

datatype exn =
    ResourceExhaustedError string
  | InternalServerError string
  | InvalidArgumentError string
  | OtherException string
  | NameError string
  | BaseExceptionOnly string

text \<open>
  The names bound in the module \<open>ai/prompt_generator.py\<close>: its imports (lines 6-17) and
  its two functions.
\<close>

definition prompt_generator_globals :: "string list" where
  "prompt_generator_globals =
     [''os'', ''time'', ''random'', ''genai'', ''types'', ''sys'',
      ''PROMPT_MODEL'', ''SAFETY_SETTINGS'', ''RETRY_DELAY'', ''MAX_CONSECUTIVE_FAILURES'',
      ''retry_api_call'', ''generate_prompt'']"

text \<open>config.py\<close>

definition MAX_CONSECUTIVE_FAILURES :: int where
  "MAX_CONSECUTIVE_FAILURES = 1000"

definition RETRY_DELAY :: int where
  "RETRY_DELAY = 10"

definition MIN_STORY_SEGMENTS :: nat where
  "MIN_STORY_SEGMENTS = 6"

text \<open>
  The handlers of the \<open>try\<close> statement (lines 40-60), for an exception \<open>e\<close> raised by the
  operation.  The first \<open>except\<close> clause evaluates
  \<open>custom_genai.genai_errors.ResourceExhaustedError\<close>: with the name \<open>custom_genai\<close>
  unbound in the module's globals \<open>g\<close> this raises \<open>NameError\<close>, which leaves the function.
  Otherwise the result is the new \<open>retry_delay\<close>, the flag \<open>kwargs['safety_retry']\<close> and the
  new value of \<open>failures\<close> (before the increment of line 63).
\<close>

definition handle_exn ::
  "string list \<Rightarrow> exn \<Rightarrow> int \<Rightarrow> bool \<Rightarrow> int \<Rightarrow> exn + (int \<times> bool \<times> int)" where
  "handle_exn g e retry_delay safety failures =
     (if ''custom_genai'' \<notin> set g then Inl (NameError ''name 'custom_genai' is not defined'')
      else case e of
        ResourceExhaustedError m \<Rightarrow> Inr (60, safety, failures)
      | InternalServerError m \<Rightarrow> Inr (retry_delay, safety, failures)
      | InvalidArgumentError m \<Rightarrow>
          if py_in ''safety'' (py_lower m) then Inr (retry_delay, True, failures)
          else Inr (retry_delay, safety, failures + 10)
      | OtherException m \<Rightarrow> Inr (retry_delay, safety, failures)
      | NameError m \<Rightarrow> Inr (retry_delay, safety, failures)
      | BaseExceptionOnly m \<Rightarrow> Inl e)"

text \<open>
  What a run of \<open>retry_api_call\<close> did: \<open>outcome\<close> is \<open>Inl e\<close> when the exception \<open>e\<close> left
  the function, \<open>Inr None\<close> when it returned \<open>None\<close> and \<open>Inr (Some v)\<close> when it returned the
  operation's result \<open>v\<close>; \<open>calls\<close> counts the invocations of the operation; \<open>sleeps\<close> lists
  the values of \<open>retry_delay\<close> that were scaled by the random jitter and slept.
\<close>

record 'a retry_result =
  outcome :: "exn + 'a option"
  calls :: nat
  sleeps :: "int list"

text \<open>
  The \<open>while\<close> loop (lines 37-81).  The operation is a function of the number of earlier
  invocations and of the flag \<open>safety_retry\<close> in its keyword arguments; it raises (\<open>Inl\<close>) or
  returns (\<open>Inr\<close>).  The jitter of line 71 is a factor between 0.5 and 1.5, so the delay
  passed to \<open>time.sleep\<close> (line 75, outside the \<open>try\<close>) is negative exactly when
  \<open>retry_delay\<close> is, and then \<open>time.sleep\<close> raises \<open>ValueError\<close>, which leaves the function.
\<close>

function retry_loop ::
  "string list \<Rightarrow> (nat \<Rightarrow> bool \<Rightarrow> exn + 'a) \<Rightarrow> int \<Rightarrow> int \<Rightarrow> int \<Rightarrow> bool \<Rightarrow> nat
     \<Rightarrow> int list \<Rightarrow> 'a retry_result" where
  "retry_loop g opr max_failures failures retry_delay safety n sl =
     (if \<not> failures < max_failures then \<lparr>outcome = Inr None, calls = n, sleeps = sl\<rparr>
      else case opr n safety of
        Inr v \<Rightarrow> \<lparr>outcome = Inr (Some v), calls = Suc n, sleeps = sl\<rparr>
      | Inl e \<Rightarrow>
         (case handle_exn g e retry_delay safety failures of
            Inl e' \<Rightarrow> \<lparr>outcome = Inl e', calls = Suc n, sleeps = sl\<rparr>
          | Inr (retry_delay', safety', failures') \<Rightarrow>
              if failures' + 1 \<ge> max_failures
              then \<lparr>outcome = Inr None, calls = Suc n, sleeps = sl\<rparr>
              else if retry_delay' < 0
              then \<lparr>outcome = Inl (OtherException ''sleep length must be non-negative''),
                    calls = Suc n, sleeps = sl\<rparr>
              else retry_loop g opr max_failures (failures' + 1) (min (retry_delay' * 2) 60)
                     safety' (Suc n) (sl @ [retry_delay'])))"
  by pat_completeness auto

termination
proof (relation "measure (\<lambda>(g, opr, max_failures, failures, rest). nat (max_failures - failures))")
  show "wf (measure (\<lambda>(g, opr, max_failures, failures, rest). nat (max_failures - failures)))"
    by simp
next
  fix g :: "string list" and opr :: "nat \<Rightarrow> bool \<Rightarrow> exn + 'a"
    and max_failures failures retry_delay :: int and safety :: bool and n :: nat
    and sl :: "int list" and e x2 d' y s' f'
  assume "\<not> \<not> failures < max_failures"
    and "handle_exn g e retry_delay safety failures = Inr x2"
    and "(d', y) = x2" and "(s', f') = y"
    and "\<not> max_failures \<le> f' + 1"
  then have "failures \<le> f'"
    by (auto simp: handle_exn_def split: if_splits exn.splits)
  then show "((g, opr, max_failures, f' + 1, min (d' * 2) 60, s', Suc n, sl @ [d']),
              (g, opr, max_failures, failures, retry_delay, safety, n, sl))
            \<in> measure (\<lambda>(g, opr, max_failures, failures, rest). nat (max_failures - failures))"
    using \<open>\<not> max_failures \<le> f' + 1\<close> by simp
qed

declare retry_loop.simps [simp del]

text \<open>
  \<open>retry_api_call\<close>: the keyword arguments \<open>max_consecutive_failures\<close> and \<open>retry_delay\<close>
  are popped (lines 31-32), \<open>failures\<close> starts at 0.
\<close>

definition retry_api_call ::
  "string list \<Rightarrow> (nat \<Rightarrow> bool \<Rightarrow> exn + 'a) \<Rightarrow> int \<Rightarrow> int \<Rightarrow> 'a retry_result" where
  "retry_api_call g opr max_consecutive_failures retry_delay =
     retry_loop g opr max_consecutive_failures 0 retry_delay False 0 []"

section \<open>ai/story\_generator.py: the image files\<close>

text \<open>\<open>str(n)\<close> for a natural number: its decimal digits.\<close>

definition digit_char :: "nat \<Rightarrow> char" where
  "digit_char d = char_of (48 + d)"

fun str_nat :: "nat \<Rightarrow> string" where
  "str_nat n = (if n < 10 then [digit_char n] else str_nat (n div 10) @ [digit_char (n mod 10)])"

declare str_nat.simps [simp del]

text \<open>The format \<open>{n:02d}\<close>: the decimal digits, padded with zeros on the left to width 2.\<close>

definition format_02d :: "nat \<Rightarrow> string" where
  "format_02d n = (let s = str_nat n in replicate (2 - length s) CHR ''0'' @ s)"

text \<open>\<open>os.path.join(a, b)\<close> of \<open>posixpath\<close>.\<close>

definition os_path_join :: "string \<Rightarrow> string \<Rightarrow> string" where
  "os_path_join a b =
     (if startswith b ''/'' then b
      else if a = [] \<or> last a = CHR ''/'' then a @ b
      else a @ ''/'' @ b)"

text \<open>Lines 149 and 189: the path of the image with sequence number \<open>image_count\<close>.\<close>

definition image_path :: "string \<Rightarrow> nat \<Rightarrow> string" where
  "image_path temp_dir image_count =
     os_path_join temp_dir (''image_'' @ format_02d image_count @ ''.png'')"

text \<open>
  The loops over the parts with inline data (lines 143-167 and 183-207): \<open>image_count\<close> is
  incremented for every part, and the path is appended unless decoding or writing the
  image raised (\<open>False\<close> in the list of parts).
\<close>

fun collect_images :: "string \<Rightarrow> nat \<Rightarrow> bool list \<Rightarrow> string list" where
  "collect_images temp_dir image_count [] = []"
| "collect_images temp_dir image_count (ok # parts) =
     (if ok then image_path temp_dir (image_count + 1) # collect_images temp_dir (image_count + 1) parts
      else collect_images temp_dir (image_count + 1) parts)"

text \<open>
  \<open>sorted\<close> on a list of strings (line 233): a stable sort by the lexicographic order of
  the code points.
\<close>

definition py_sorted :: "string list \<Rightarrow> string list" where
  "py_sorted xs = sort xs"

section \<open>ai/seo.py: default\_seo\_metadata\<close>

text \<open>
  Line 127: \<open>about\s+(.*?)\s+going\s+on\s+an\s+adventure\s+in\s+(.*?)(?:\s+in\s+a\s+3d|\.)\<close>
\<close>

definition pattern_char_setting :: regex where
  "pattern_char_setting =
     seqs [Lit ''about'', Plus Space, Group (LazyStar Dot), Plus Space, Lit ''going'',
           Plus Space, Lit ''on'', Plus Space, Lit ''an'', Plus Space, Lit ''adventure'',
           Plus Space, Lit ''in'', Plus Space, Group (LazyStar Dot),
           Alt (seqs [Plus Space, Lit ''in'', Plus Space, Lit ''a'', Plus Space, Lit ''3d''])
               (C (Chr CHR ''.''))]"

record seo_metadata =
  title :: string
  description :: string
  tags :: "string list"

text \<open>
  \<open>default_seo_metadata\<close>; \<open>timestamp\<close> is the date that \<open>datetime.datetime.now()\<close>
  gives, formatted as \<open>%Y-%m-%d\<close>.
\<close>

definition default_seo_metadata :: "string \<Rightarrow> string \<Rightarrow> string \<Rightarrow> seo_metadata" where
  "default_seo_metadata story_text prompt_text timestamp =
     (let char_setting = re_search pattern_char_setting prompt_text;
          character = (case char_setting of Some g \<Rightarrow> g ! 0 | None \<Rightarrow> ''an animal'');
          setting = (case char_setting of Some g \<Rightarrow> g ! 1 | None \<Rightarrow> ''an adventure'');
          title = ''Adventure of '' @ character @ '' in '' @ setting @ '' | Children's Story'';
          title = take 60 title;
          story_preview = (if length story_text > 500 then take 500 story_text @ ''...''
                           else story_text);
          nl = [CHR 0x0A];
          description =
            nl @ ''    Join '' @ character @ '' on an exciting adventure in '' @ setting @ ''!''
            @ nl @ ''    ''
            @ nl @ ''    '' @ story_preview
            @ nl @ ''    ''
            @ nl @ ''    This animated children's story is perfect for bedtime reading, family story time, or whenever your child wants to explore magical worlds and learn valuable lessons. Watch as our character overcomes challenges and discovers new friends along the way.''
            @ nl @ ''    ''
            @ nl @ ''    #ChildrensStory #Animation #KidsEntertainment''
            @ nl @ ''    ''
            @ nl @ ''    Created: '' @ timestamp
            @ nl @ ''    '';
          tags = [''children's story'', ''kids animation'', ''bedtime story'', ''animated story'',
                  character, setting, ''family friendly'', ''kids entertainment'', ''story time'',
                  ''animated adventure'', ''educational content'', ''preschool'', ''moral story'',
                  ''3D animation'', ''storybook'']
      in \<lparr>title = title, description = description, tags = tags\<rparr>)"

section \<open>ai/story\_generator.py: retry\_story\_generation\<close>

text \<open>
  What \<open>generate\<close> returns when it does not return \<open>None\<close>: a dictionary that always has
  the keys \<open>story_text\<close> and \<open>image_files\<close> (lines 255-306); the other keys are not read by
  \<open>retry_story_generation\<close>.
\<close>

record generated =
  story_text :: string
  image_files :: "string list"

text \<open>
  Lines 57-61: the test of the result of one attempt.  \<open>None\<close> fails the test of line 57;
  a dictionary passes when the story has at least \<open>MIN_STORY_SEGMENTS\<close> cleaned segments
  and there are at least \<open>MIN_STORY_SEGMENTS\<close> image files.
\<close>

definition attempt_success :: "generated option \<Rightarrow> bool" where
  "attempt_success result =
     (case result of
        None \<Rightarrow> False
      | Some r \<Rightarrow>
         (case collect_complete_story (story_text r) True of
            Inl story_segments \<Rightarrow>
              length story_segments \<ge> MIN_STORY_SEGMENTS
              \<and> length (image_files r) \<ge> MIN_STORY_SEGMENTS
          | Inr full_story \<Rightarrow>
              length full_story \<ge> MIN_STORY_SEGMENTS
              \<and> length (image_files r) \<ge> MIN_STORY_SEGMENTS))"

text \<open>\<open>except Exception\<close> (line 70) catches every exception but a bare \<open>BaseException\<close>.\<close>

fun is_Exception :: "exn \<Rightarrow> bool" where
  "is_Exception (BaseExceptionOnly m) = False"
| "is_Exception e = True"

text \<open>
  An attempt that leaves \<open>success\<close> false: \<open>generate\<close> raised an \<open>Exception\<close>, or its result
  failed the test.
\<close>

definition attempt_failed :: "(nat \<Rightarrow> exn + generated option) \<Rightarrow> nat \<Rightarrow> bool" where
  "attempt_failed generate k =
     (case generate k of Inl e \<Rightarrow> is_Exception e | Inr r \<Rightarrow> \<not> attempt_success r)"

text \<open>
  What a run of \<open>retry_story_generation\<close> did: \<open>returned\<close> is \<open>Inl e\<close> when the exception
  \<open>e\<close> left the function, otherwise the value returned; \<open>attempts\<close> counts the calls of
  \<open>generate\<close>.
\<close>

record story_run =
  returned :: "exn + generated option"
  attempts :: nat

text \<open>
  The loop of lines 48-77 and the return of lines 79-84.  Every attempt calls
  \<open>generate(use_prompt_generator, prompt_input)\<close> with the arguments of the first call and
  nothing of the earlier attempts; its outcome is given by the number of earlier calls: it
  raises (\<open>Inl\<close>) or returns \<open>None\<close> or a dictionary (\<open>Inr\<close>).
\<close>

function story_loop ::
  "(nat \<Rightarrow> exn + generated option) \<Rightarrow> nat \<Rightarrow> nat \<Rightarrow> bool \<Rightarrow> generated option \<Rightarrow> story_run" where
  "story_loop generate max_retries retry_count success result =
     (if \<not> success \<and> retry_count < max_retries then
        (case generate retry_count of
           Inl e \<Rightarrow>
             if is_Exception e
             then story_loop generate max_retries (retry_count + 1) success result
             else \<lparr>returned = Inl e, attempts = retry_count + 1\<rparr>
         | Inr r \<Rightarrow> story_loop generate max_retries (retry_count + 1) (attempt_success r) r)
      else if success then \<lparr>returned = Inr result, attempts = retry_count\<rparr>
      else \<lparr>returned = Inr None, attempts = retry_count\<rparr>)"
  by pat_completeness auto

termination
  by (relation "measure (\<lambda>(generate, max_retries, retry_count, rest). max_retries - retry_count)")
     auto

declare story_loop.simps [simp del]

definition retry_story_generation :: "(nat \<Rightarrow> exn + generated option) \<Rightarrow> story_run" where
  "retry_story_generation generate = story_loop generate 5 0 False None"

section \<open>Properties of the regular expressions\<close>

text \<open>
  Every match of a pattern consumes at least \<open>min_len\<close> characters, and each pattern that
  the program splits or substitutes with consumes at least one: the scan always moves on
  behind a match.
\<close>

lemma star_greedy_length: "r \<in> set (star_greedy c s) \<Longrightarrow> length r \<le> length s"
  by (induction s) (auto split: if_splits)

lemma star_lazy_length: "r \<in> set (star_lazy c s) \<Longrightarrow> length r \<le> length s"
  by (induction s) (auto split: if_splits)

lemma startswith_length: "startswith s l \<Longrightarrow> length l \<le> length s"
proof -
  assume "startswith s l"
  then have "length (take (length l) s) = length l" by (simp add: startswith_def)
  then show ?thesis by simp
qed

lemma rmatch_length:
  "(s', g') \<in> set (rmatch n r (s, g)) \<Longrightarrow> length s' + min_len r \<le> length s"
proof (induction r arbitrary: s g s' g')
  case Eps
  then show ?case by simp
next
  case (C c)
  then show ?case by (cases s) (simp_all split: if_splits)
next
  case (Lit l)
  then have "startswith s l" "s' = drop (length l) s" by (simp_all split: if_splits)
  then show ?case using startswith_length [of s l] by simp
next
  case (Seq a b)
  then obtain s1 g1 where 1: "(s1, g1) \<in> set (rmatch n a (s, g))"
    and 2: "(s', g') \<in> set (rmatch n b (s1, g1))" by auto
  from Seq.IH(1) [OF 1] Seq.IH(2) [OF 2] show ?case by simp
next
  case (Alt a b)
  then have "(s', g') \<in> set (rmatch n a (s, g)) \<or> (s', g') \<in> set (rmatch n b (s, g))" by simp
  then show ?case using Alt.IH(1) [of s' g' s g] Alt.IH(2) [of s' g' s g] by auto
next
  case (Star c)
  then have "s' \<in> set (star_greedy c s)" by auto
  then show ?case using star_greedy_length by simp
next
  case (Plus c)
  show ?case
  proof (cases s)
    case Nil
    then show ?thesis using Plus by simp
  next
    case (Cons x xs)
    then have "s' \<in> set (star_greedy c xs)" using Plus by (auto split: if_splits)
    then show ?thesis using star_greedy_length [of s' c xs] Cons by simp
  qed
next
  case (LazyStar c)
  then have "s' \<in> set (star_lazy c s)" by auto
  then show ?case using star_lazy_length by simp
next
  case (Opt r)
  then have "(s', g') \<in> set (rmatch n r (s, g)) \<or> s' = s" by auto
  then show ?case using Opt.IH [of s' g' s g] by auto
next
  case Bol
  then show ?case by (simp split: if_splits)
next
  case (Group r)
  then obtain g1 where "(s', g1) \<in> set (rmatch n r (s, g))" by auto
  then show ?case using Group.IH by simp
qed

lemma patterns_consume:
  "min_len pattern_segment > 0" "min_len pattern_number > 0" "min_len pattern_image > 0"
  "min_len pattern_paragraph > 0" "min_len pattern_bracket > 0"
  by (simp_all add: pattern_segment_def pattern_number_def pattern_image_def
        pattern_paragraph_def pattern_bracket_def)

lemma rscan_consuming:
  assumes "min_len r > 0"
  shows "rscan n r 0 acc (c # cs) =
     (case rmatch n r (c # cs, []) of
        [] \<Rightarrow> rscan n r 0 (c # acc) cs
      | (rest, g) # other \<Rightarrow> rev acc # rscan n r (length cs - length rest) [] cs)"
proof (cases "rmatch n r (c # cs, [])")
  case Nil
  then show ?thesis by simp
next
  case (Cons m other)
  obtain rest g where m: "m = (rest, g)" by (cases m)
  then have "(rest, g) \<in> set (rmatch n r (c # cs, []))" using Cons by simp
  then have "length rest < length (c # cs)" using rmatch_length [of rest g n r "c # cs" "[]"] assms by simp
  then show ?thesis using Cons m by simp
qed

section \<open>Properties of collect\_complete\_story\<close>

lemma cleanup_map_filter: "cleanup segments = map clean (filter kept segments)"
  by (induction segments) (simp_all add: kept_def Let_def)

lemma cleanup_nonempty: "s \<in> set (cleanup segments) \<Longrightarrow> s \<noteq> []"
  by (auto simp: cleanup_map_filter kept_def)

lemma try_patterns_found:
  assumes "\<exists>p \<in> set ps. 3 \<le> length (strip_nonempty (re_split p text))"
  shows "3 \<le> length (try_patterns ps text)
       \<and> (\<exists>p \<in> set ps. try_patterns ps text = strip_nonempty (re_split p text))"
  using assms by (induction ps) (auto simp: Let_def)

lemma try_patterns_none:
  assumes "\<forall>p \<in> set ps. length (strip_nonempty (re_split p text)) < 3"
  shows "try_patterns ps text = []"
  using assms by (induction ps) (auto simp: Let_def)

lemma collect_segments:
  "collect_complete_story raw_text True = Inl (cleanup (find_segments (py_strip raw_text)))"
  by (simp add: collect_complete_story_def Let_def)

text \<open>
  With \<open>return_segments\<close> the result is the list of the loop, whatever its length (the test
  of line 94 for a story that is too short is not reached), and none of its elements is empty.
\<close>

lemma collect_segments_nonempty:
  assumes "collect_complete_story raw_text True = Inl story_segments" "s \<in> set story_segments"
  shows "s \<noteq> []"
  using assms cleanup_nonempty by (auto simp: collect_segments)

text \<open>
  C1, as stated: when one of the three patterns splits the text into at least three
  non-empty pieces, at least three segments are returned.  The text below is split by the
  first pattern into the three pieces \<open>x\<close>, \<open>y\<close> and \<open>z\<close>; each has fewer than five words and
  is skipped, and the empty list is returned.
\<close>

theorem marked_text_counterexample:
  "strip_nonempty (re_split pattern_segment (py_strip ''x Segment 1 y Segment 2 z''))
     = [''x'', ''y'', ''z'']
   \<and> collect_complete_story ''x Segment 1 y Segment 2 z'' True = Inl []"
  by code_simp

text \<open>
  C1, amended: when one of the three patterns splits the stripped text into at least three
  non-empty pieces, the segments returned are the cleaned texts of the pieces, of such a
  pattern, that are not skipped (lines 62-67) and are not empty after cleaning.  They are
  at most as many as the pieces, at least three when at least three pieces are kept, and
  none of them is empty.
\<close>

theorem segments_of_marked_text:
  assumes "\<exists>p \<in> set segment_patterns.
             3 \<le> length (strip_nonempty (re_split p (py_strip raw_text)))"
  shows "\<exists>p \<in> set segment_patterns. \<exists>pieces story_segments.
           pieces = strip_nonempty (re_split p (py_strip raw_text))
         \<and> 3 \<le> length pieces
         \<and> collect_complete_story raw_text True = Inl story_segments
         \<and> story_segments = map clean (filter kept pieces)
         \<and> length story_segments \<le> length pieces
         \<and> (length (filter kept pieces) \<ge> 3 \<longrightarrow> length story_segments \<ge> 3)
         \<and> (\<forall>s \<in> set story_segments. s \<noteq> [])"
proof -
  let ?t = "py_strip raw_text"
  from try_patterns_found [OF assms]
  obtain p where p: "p \<in> set segment_patterns" "3 \<le> length (try_patterns segment_patterns ?t)"
    "try_patterns segment_patterns ?t = strip_nonempty (re_split p ?t)" by blast
  then have "try_patterns segment_patterns ?t \<noteq> []" by auto
  then have f: "find_segments ?t = strip_nonempty (re_split p ?t)"
    using p(3) by (simp add: find_segments_def Let_def)
  have "collect_complete_story raw_text True
          = Inl (map clean (filter kept (strip_nonempty (re_split p ?t))))"
    by (simp add: collect_segments f cleanup_map_filter)
  moreover have "\<forall>s \<in> set (map clean (filter kept (strip_nonempty (re_split p ?t)))). s \<noteq> []"
    by (auto simp: kept_def)
  ultimately show ?thesis using p(1,2,3) by (intro bexI [of _ p]) auto
qed

theorem segments_of_marked_text_witness:
  "3 \<le> length (strip_nonempty (re_split pattern_segment
           (py_strip ''Segment 1 a b c d e Segment 2 f g h i j Segment 3 k l m n o'')))
   \<and> collect_complete_story ''Segment 1 a b c d e Segment 2 f g h i j Segment 3 k l m n o'' True
       = Inl [''a b c d e'', ''f g h i j'', ''k l m n o'']
   \<and> (\<exists>p \<in> set segment_patterns. \<exists>pieces.
         pieces = strip_nonempty (re_split p
           (py_strip ''Segment 1 a b c d e Segment 2 f g h i j Segment 3 k l m n o''))
       \<and> 3 \<le> length pieces
       \<and> [''a b c d e'', ''f g h i j'', ''k l m n o''] = map clean (filter kept pieces))"
proof -
  let ?w = "''Segment 1 a b c d e Segment 2 f g h i j Segment 3 k l m n o''"
  have h: "3 \<le> length (strip_nonempty (re_split pattern_segment (py_strip ?w)))"
    by code_simp
  have e: "collect_complete_story ?w True = Inl [''a b c d e'', ''f g h i j'', ''k l m n o'']"
    by code_simp
  have "\<exists>p \<in> set segment_patterns. 3 \<le> length (strip_nonempty (re_split p (py_strip ?w)))"
    using h by (auto simp: segment_patterns_def)
  from segments_of_marked_text [OF this] show ?thesis using h e by auto
qed

text \<open>
  C3, as stated: when no pattern gives three pieces, the list returned is at least as long
  as the number of non-empty paragraphs.  The text \<open>hello\<close> is one paragraph, which has fewer
  than five words and is skipped: the empty list is returned.
\<close>

theorem unmarked_text_counterexample:
  "length (strip_nonempty (re_split pattern_segment (py_strip ''hello''))) < 3
   \<and> length (strip_nonempty (re_split pattern_number (py_strip ''hello''))) < 3
   \<and> length (strip_nonempty (re_split pattern_image (py_strip ''hello''))) < 3
   \<and> strip_nonempty (re_split pattern_paragraph (py_strip ''hello'')) = [''hello'']
   \<and> collect_complete_story ''hello'' True = Inl []"
  by code_simp

text \<open>
  C3, amended: when none of the three patterns splits the stripped text into at least three
  non-empty pieces, the text is split on blank lines, and the segments returned are the
  cleaned texts of the non-empty paragraphs that are not skipped (lines 62-67) and are not
  empty after cleaning: at most as many as the paragraphs, and exactly as many when every
  paragraph is kept.
\<close>

theorem segments_of_unmarked_text:
  assumes "\<forall>p \<in> set segment_patterns.
             length (strip_nonempty (re_split p (py_strip raw_text))) < 3"
  shows "\<exists>paragraphs story_segments.
           paragraphs = strip_nonempty (re_split pattern_paragraph (py_strip raw_text))
         \<and> collect_complete_story raw_text True = Inl story_segments
         \<and> story_segments = map clean (filter kept paragraphs)
         \<and> length story_segments \<le> length paragraphs
         \<and> ((\<forall>s \<in> set paragraphs. kept s) \<longrightarrow> length story_segments = length paragraphs)"
proof -
  let ?t = "py_strip raw_text"
  have "try_patterns segment_patterns ?t = []" by (rule try_patterns_none [OF assms])
  then have f: "find_segments ?t = strip_nonempty (re_split pattern_paragraph ?t)"
    by (simp add: find_segments_def)
  show ?thesis by (simp add: collect_segments f cleanup_map_filter)
qed

theorem segments_of_unmarked_text_witness:
  "length (strip_nonempty (re_split pattern_segment
      (py_strip (''one two three four five'' @ [CHR 0x0A, CHR 0x0A] @ ''six seven eight nine ten'')))) < 3
   \<and> collect_complete_story
        (''one two three four five'' @ [CHR 0x0A, CHR 0x0A] @ ''six seven eight nine ten'') True
       = Inl [''one two three four five'', ''six seven eight nine ten'']
   \<and> (\<exists>paragraphs.
         paragraphs = strip_nonempty (re_split pattern_paragraph
           (py_strip (''one two three four five'' @ [CHR 0x0A, CHR 0x0A] @ ''six seven eight nine ten'')))
       \<and> [''one two three four five'', ''six seven eight nine ten'']
           = map clean (filter kept paragraphs))"
proof -
  let ?w = "''one two three four five'' @ [CHR 0x0A, CHR 0x0A] @ ''six seven eight nine ten''"
  have h1: "length (strip_nonempty (re_split pattern_segment (py_strip ?w))) < 3" by code_simp
  have h2: "length (strip_nonempty (re_split pattern_number (py_strip ?w))) < 3" by code_simp
  have h3: "length (strip_nonempty (re_split pattern_image (py_strip ?w))) < 3" by code_simp
  have e: "collect_complete_story ?w True
             = Inl [''one two three four five'', ''six seven eight nine ten'']"
    by code_simp
  have "\<forall>p \<in> set segment_patterns. length (strip_nonempty (re_split p (py_strip ?w))) < 3"
    using h1 h2 h3 by (simp add: segment_patterns_def)
  from segments_of_unmarked_text [OF this] show ?thesis using h1 e by auto
qed

text \<open>
  C9: every segment returned should be free of the code fence \<open>```\<close>.  The segment below
  does not contain it and is kept; removing the bracket \<open>[x]\<close> (line 77) joins the backquotes
  around it, and the segment returned starts with the fence.
\<close>

theorem fence_after_bracket_removal:
  "\<not> py_in ''```'' ''``[x]` one two three four five''
   \<and> collect_complete_story ''``[x]` one two three four five'' True
       = Inl [''``` one two three four five'']
   \<and> py_in ''```'' ''``` one two three four five''"
  by code_simp

section \<open>Properties of retry\_story\_generation\<close>

text \<open>
  The loop makes at most \<open>max_retries\<close> calls of \<open>generate\<close>; when every attempt fails it
  returns \<open>None\<close> after all of them, and the first attempt that succeeds ends it.
\<close>

lemma story_loop_attempts:
  "attempts (story_loop generate mx rc success result) \<le> max mx rc"
proof (induction "mx - rc" arbitrary: rc success result)
  case 0
  then show ?case by (subst story_loop.simps) auto
next
  case (Suc d)
  then have d: "d = mx - (rc + 1)" "rc < mx" by linarith+
  note ih = Suc.hyps(1) [OF d(1)]
  show ?case
    using ih d(2) by (subst story_loop.simps) (auto split: sum.splits simp: max_def le_Suc_eq dest: order_trans)
qed

lemma story_loop_all_failed:
  assumes "\<And>k. rc \<le> k \<Longrightarrow> k < mx \<Longrightarrow> attempt_failed generate k"
  shows "story_loop generate mx rc False result = \<lparr>returned = Inr None, attempts = max mx rc\<rparr>"
  using assms
proof (induction "mx - rc" arbitrary: rc result)
  case 0
  then show ?case by (subst story_loop.simps) (auto simp: max_def)
next
  case (Suc d)
  then have d: "d = mx - (rc + 1)" "rc < mx" by linarith+
  have f: "attempt_failed generate rc" using Suc.prems d(2) by simp
  have ih: "story_loop generate mx (rc + 1) False r = \<lparr>returned = Inr None, attempts = max mx (rc + 1)\<rparr>" for r
    using Suc.hyps(1) [OF d(1)] Suc.prems by simp
  show ?case
  proof (cases "generate rc")
    case (Inl e)
    then show ?thesis using f ih d(2) by (subst story_loop.simps) (simp add: attempt_failed_def max_def)
  next
    case (Inr r)
    then show ?thesis using f ih d(2) by (subst story_loop.simps) (simp add: attempt_failed_def max_def)
  qed
qed

lemma story_loop_first_success:
  assumes "\<And>j. rc \<le> j \<Longrightarrow> j < k \<Longrightarrow> attempt_failed generate j"
    and "rc \<le> k" "k < mx" "generate k = Inr r" "attempt_success r"
  shows "story_loop generate mx rc False result = \<lparr>returned = Inr r, attempts = k + 1\<rparr>"
  using assms
proof (induction "k - rc" arbitrary: rc result)
  case 0
  then have "rc = k" by simp
  have "story_loop generate mx (k + 1) True r = \<lparr>returned = Inr r, attempts = k + 1\<rparr>"
    by (subst story_loop.simps) simp
  then show ?case using 0 \<open>rc = k\<close> by (subst story_loop.simps) simp
next
  case (Suc d)
  then have d: "d = k - (rc + 1)" "rc < k" by linarith+
  have f: "attempt_failed generate rc" using Suc.prems(1) d(2) by simp
  have ih: "story_loop generate mx (rc + 1) False r' = \<lparr>returned = Inr r, attempts = k + 1\<rparr>" for r'
    using Suc.hyps(1) [OF d(1)] Suc.prems d(2) by simp
  have lt: "rc < mx" using d(2) Suc.prems(3) by simp
  show ?case
  proof (cases "generate rc")
    case (Inl e)
    then show ?thesis using f ih lt by (subst story_loop.simps) (simp add: attempt_failed_def)
  next
    case (Inr r')
    then show ?thesis using f ih lt by (subst story_loop.simps) (simp add: attempt_failed_def)
  qed
qed


text \<open>
  C4: an attempt whose result has fewer than \<open>MIN_STORY_SEGMENTS\<close> cleaned segments or
  fewer than \<open>MIN_STORY_SEGMENTS\<close> image files is a failed attempt, like one where
  \<open>generate\<close> raised or returned \<open>None\<close>; after a failed attempt \<open>generate\<close> is called again
  from the start; there are at most 5 calls; \<open>None\<close> is returned when all 5 attempts fail,
  and the result of the first attempt that succeeds is returned otherwise.
\<close>

theorem retry_story_generation_attempts:
  "attempts (retry_story_generation generate) \<le> 5
   \<and> (\<forall>k r story_segments.
          generate k = Inr (Some r)
          \<and> collect_complete_story (story_text r) True = Inl story_segments
          \<and> (length story_segments < MIN_STORY_SEGMENTS
               \<or> length (image_files r) < MIN_STORY_SEGMENTS)
          \<longrightarrow> attempt_failed generate k)
   \<and> ((\<forall>k<5. attempt_failed generate k)
        \<longrightarrow> retry_story_generation generate = \<lparr>returned = Inr None, attempts = 5\<rparr>)
   \<and> (\<forall>k r. k < 5 \<and> (\<forall>j<k. attempt_failed generate j) \<and> generate k = Inr r \<and> attempt_success r
        \<longrightarrow> retry_story_generation generate = \<lparr>returned = Inr r, attempts = k + 1\<rparr>)"
proof (intro conjI allI impI)
  show "attempts (retry_story_generation generate) \<le> 5"
    using story_loop_attempts [of generate 5 0 False None] by (simp add: retry_story_generation_def)
next
  fix k r story_segments
  assume "generate k = Inr (Some r)
          \<and> collect_complete_story (story_text r) True = Inl story_segments
          \<and> (length story_segments < MIN_STORY_SEGMENTS
               \<or> length (image_files r) < MIN_STORY_SEGMENTS)"
  then show "attempt_failed generate k"
    by (auto simp: attempt_failed_def attempt_success_def)
next
  assume "\<forall>k<5. attempt_failed generate k"
  then show "retry_story_generation generate = \<lparr>returned = Inr None, attempts = 5\<rparr>"
    using story_loop_all_failed [of 0 5 generate None] by (simp add: retry_story_generation_def)
next
  fix k r
  assume "k < 5 \<and> (\<forall>j<k. attempt_failed generate j) \<and> generate k = Inr r \<and> attempt_success r"
  then show "retry_story_generation generate = \<lparr>returned = Inr r, attempts = k + 1\<rparr>"
    using story_loop_first_success [of 0 k generate 5 r None] by (simp add: retry_story_generation_def)
qed

theorem retry_story_generation_attempts_witness:
  "retry_story_generation (\<lambda>k. Inr (Some \<lparr>story_text = ''too short'', image_files = []\<rparr>))
     = \<lparr>returned = Inr None, attempts = 5\<rparr>
   \<and> retry_story_generation
        (\<lambda>k. if k < 2 then Inr None
             else Inr (Some \<lparr>story_text =
                    ''Pip the goat woke up early.'' @ [CHR 0x0A, CHR 0x0A]
                    @ ''He walked to the red barn.'' @ [CHR 0x0A, CHR 0x0A]
                    @ ''A duck said hello to him.'' @ [CHR 0x0A, CHR 0x0A]
                    @ ''They played in the green field.'' @ [CHR 0x0A, CHR 0x0A]
                    @ ''Rain came and they ran home.'' @ [CHR 0x0A, CHR 0x0A]
                    @ ''Pip slept well that quiet night.'',
                  image_files = map (image_path ''/tmp/t'') [1, 2, 3, 4, 5, 6]\<rparr>))
     = \<lparr>returned = Inr (Some \<lparr>story_text =
                    ''Pip the goat woke up early.'' @ [CHR 0x0A, CHR 0x0A]
                    @ ''He walked to the red barn.'' @ [CHR 0x0A, CHR 0x0A]
                    @ ''A duck said hello to him.'' @ [CHR 0x0A, CHR 0x0A]
                    @ ''They played in the green field.'' @ [CHR 0x0A, CHR 0x0A]
                    @ ''Rain came and they ran home.'' @ [CHR 0x0A, CHR 0x0A]
                    @ ''Pip slept well that quiet night.'',
                  image_files = map (image_path ''/tmp/t'') [1, 2, 3, 4, 5, 6]\<rparr>),
        attempts = 3\<rparr>"
proof -
  let ?short = "\<lparr>story_text = ''too short'', image_files = []\<rparr>"
  let ?long = "\<lparr>story_text =
                    ''Pip the goat woke up early.'' @ [CHR 0x0A, CHR 0x0A]
                    @ ''He walked to the red barn.'' @ [CHR 0x0A, CHR 0x0A]
                    @ ''A duck said hello to him.'' @ [CHR 0x0A, CHR 0x0A]
                    @ ''They played in the green field.'' @ [CHR 0x0A, CHR 0x0A]
                    @ ''Rain came and they ran home.'' @ [CHR 0x0A, CHR 0x0A]
                    @ ''Pip slept well that quiet night.'',
                  image_files = map (image_path ''/tmp/t'') [1, 2, 3, 4, 5, 6]\<rparr>"
  let ?g1 = "\<lambda>k::nat. Inr (Some ?short) :: exn + generated option"
  let ?g2 = "\<lambda>k::nat. if k < 2 then Inr None else Inr (Some ?long) :: exn + generated option"
  have s: "\<not> attempt_success (Some ?short)" by code_simp
  have l: "attempt_success (Some ?long)" by code_simp
  have n: "\<not> attempt_success None" by (simp add: attempt_success_def)
  have 1: "\<forall>k<5. attempt_failed ?g1 k" using s by (simp add: attempt_failed_def)
  have 2: "(2::nat) < 5 \<and> (\<forall>j<2. attempt_failed ?g2 j) \<and> ?g2 2 = Inr (Some ?long)
            \<and> attempt_success (Some ?long)"
    using l n by (simp add: attempt_failed_def)
  have a: "retry_story_generation ?g1 = \<lparr>returned = Inr None, attempts = 5\<rparr>"
    using retry_story_generation_attempts [of ?g1] 1 by blast
  have b: "retry_story_generation ?g2 = \<lparr>returned = Inr (Some ?long), attempts = 2 + 1\<rparr>"
    using retry_story_generation_attempts [of ?g2] 2 by blast
  show ?thesis using a b by simp
qed

section \<open>Properties of default\_seo\_metadata\<close>

text \<open>
  C6: for every story text and prompt text (and every date), the title of the default
  metadata has at most 60 characters and the list of tags is not empty.
\<close>

theorem default_seo_metadata_title_tags:
  "length (title (default_seo_metadata story prompt timestamp)) \<le> 60
   \<and> tags (default_seo_metadata story prompt timestamp) \<noteq> []"
  by (simp add: default_seo_metadata_def Let_def)

text \<open>
  The pattern of line 127 on the default prompt of \<open>config.py\<close> (its first sentence), and the
  title that results, cut at 60 characters.
\<close>

lemma default_prompt_char_setting:
  "re_search pattern_char_setting
     ''Generate a story about a white baby goat named Pip going on an adventure in a farm in a highly detailed 3d cartoon animation style. For each scene''
   = Some [''a white baby goat named Pip'',
           ''a farm in a highly detailed 3d cartoon animation style'']"
  by code_simp

section \<open>Properties of retry\_api\_call\<close>

text \<open>
  Two runs of the loop with the name \<open>custom_genai\<close> bound and a delay that is not negative:
  an operation that always raises an exception of the catch-all kind is invoked once per unit
  of the remaining budget, and one that always raises the invalid-argument class without
  "safety" in its lower-cased message uses up eleven units per invocation.
\<close>

lemma retry_loop_generic:
  assumes g: "''custom_genai'' \<in> set g"
    and opr: "\<And>n s. \<exists>m. opr n s = Inl (OtherException m) \<or> opr n s = Inl (NameError m)"
    and d: "0 \<le> d"
  shows "outcome (retry_loop g opr mx f d s n sl) = Inr None
       \<and> calls (retry_loop g opr mx f d s n sl) = n + nat (mx - f)"
  using d
proof (induction "nat (mx - f)" arbitrary: f d s n sl)
  case 0
  then show ?case by (simp add: retry_loop.simps)
next
  case (Suc k)
  then have lt: "f < mx" by linarith
  obtain m where m: "opr n s = Inl (OtherException m) \<or> opr n s = Inl (NameError m)"
    using opr by blast
  then have h: "handle_exn g (case opr n s of Inl e \<Rightarrow> e) d s f = Inr (d, s, f)"
    using g by (auto simp: handle_exn_def)
  show ?case
  proof (cases "mx \<le> f + 1")
    case True
    then have "nat (mx - f) = 1" using lt by linarith
    with True lt m h show ?thesis
      by (subst (1 2) retry_loop.simps) auto
  next
    case False
    have k: "k = nat (mx - (f + 1))" using Suc.hyps(2) by linarith
    have d': "0 \<le> min (d * 2) 60" using Suc.prems by simp
    have ih: "outcome (retry_loop g opr mx (f + 1) (min (d * 2) 60) s (Suc n) (sl @ [d])) = Inr None
       \<and> calls (retry_loop g opr mx (f + 1) (min (d * 2) 60) s (Suc n) (sl @ [d]))
           = Suc n + nat (mx - (f + 1))"
      using Suc.hyps(1) [OF k d'] .
    have "retry_loop g opr mx f d s n sl
            = retry_loop g opr mx (f + 1) (min (d * 2) 60) s (Suc n) (sl @ [d])"
      using False lt m h Suc.prems by (subst retry_loop.simps) auto
    with ih show ?thesis using lt by (simp add: nat_diff_distrib)
  qed
qed

lemma retry_loop_invalid:
  assumes g: "''custom_genai'' \<in> set g"
    and opr: "\<And>n s. \<exists>m. opr n s = Inl (InvalidArgumentError m) \<and> \<not> py_in ''safety'' (py_lower m)"
    and d: "0 \<le> d"
  shows "outcome (retry_loop g opr mx f d s n sl) = Inr None
       \<and> calls (retry_loop g opr mx f d s n sl) = n + nat ((mx - f + 10) div 11)"
  using d
proof (induction "nat (mx - f)" arbitrary: f d s n sl rule: less_induct)
  case less
  show ?case
  proof (cases "f < mx")
    case False
    then show ?thesis by (simp add: retry_loop.simps)
  next
    case lt: True
    obtain m where m: "opr n s = Inl (InvalidArgumentError m)" "\<not> py_in ''safety'' (py_lower m)"
      using opr by blast
    then have h: "handle_exn g (InvalidArgumentError m) d s f = Inr (d, s, f + 10)"
      using g by (auto simp: handle_exn_def)
    show ?thesis
    proof (cases "mx \<le> f + 10 + 1")
      case True
      then have "nat ((mx - f + 10) div 11) = 1" using lt by simp
      with True lt m h show ?thesis
        by (subst (1 2) retry_loop.simps) auto
    next
      case False
      have k: "nat (mx - (f + 10 + 1)) < nat (mx - f)" using lt by linarith
      have d': "0 \<le> min (d * 2) 60" using less.prems by simp
      note ih = less.hyps [OF k d', of s "Suc n" "sl @ [d]"]
      have "retry_loop g opr mx f d s n sl
              = retry_loop g opr mx (f + 10 + 1) (min (d * 2) 60) s (Suc n) (sl @ [d])"
        using False lt m h less.prems by (subst retry_loop.simps) auto
      moreover have "Suc (nat ((mx - (f + 10 + 1) + 10) div 11)) = nat ((mx - f + 10) div 11)"
        using False by simp
      ultimately show ?thesis using ih by simp
    qed
  qed
qed

lemma retry_api_call_invalid_argument_bound:
  assumes "''custom_genai'' \<in> set g"
    and "\<forall>n s. \<exists>m. opr n s = Inl (InvalidArgumentError m) \<and> \<not> py_in ''safety'' (py_lower m)"
    and "0 \<le> d"
  shows "outcome (retry_api_call g opr mx d) = Inr None
       \<and> int (calls (retry_api_call g opr mx d)) = max 0 ((mx + 10) div 11)
       \<and> (2 \<le> mx \<longrightarrow> int (calls (retry_api_call g opr mx d)) < mx)"
proof -
  have "outcome (retry_loop g opr mx 0 d False 0 []) = Inr None
      \<and> calls (retry_loop g opr mx 0 d False 0 []) = 0 + nat ((mx - 0 + 10) div 11)"
    by (rule retry_loop_invalid) (use assms in blast)+
  then show ?thesis by (auto simp: retry_api_call_def)
qed

text \<open>
  A negative \<open>retry_delay\<close> ends the run at the first sleep: with the name bound and a budget
  of 25, the operation is invoked once and \<open>ValueError\<close> leaves the function.
\<close>

lemma retry_api_call_negative_delay:
  "outcome (retry_api_call (''custom_genai'' # prompt_generator_globals)
              (\<lambda>n s. Inl (OtherException ''boom'') :: exn + nat) 25 (- 1))
     = Inl (OtherException ''sleep length must be non-negative'')
   \<and> calls (retry_api_call (''custom_genai'' # prompt_generator_globals)
              (\<lambda>n s. Inl (OtherException ''boom'') :: exn + nat) 25 (- 1)) = 1"
  by (simp add: retry_api_call_def retry_loop.simps handle_exn_def)

text \<open>
  C10: with \<open>max_consecutive_failures \<le> 0\<close> the loop condition is false at once:
  \<open>retry_api_call\<close> returns \<open>None\<close> and the operation is never invoked, whatever the
  operation and the module's globals.
\<close>

theorem retry_api_call_no_budget:
  assumes "max_consecutive_failures \<le> 0"
  shows "outcome (retry_api_call g opr max_consecutive_failures retry_delay) = Inr None
       \<and> calls (retry_api_call g opr max_consecutive_failures retry_delay) = 0"
  using assms by (simp add: retry_api_call_def retry_loop.simps)

theorem retry_api_call_no_budget_witness:
  "(0::int) \<le> 0
   \<and> outcome (retry_api_call prompt_generator_globals (\<lambda>n s. Inr (1::nat)) 0 10) = Inr None
   \<and> calls (retry_api_call prompt_generator_globals (\<lambda>n s. Inr (1::nat)) 0 10) = 0"
  using retry_api_call_no_budget [of 0 prompt_generator_globals "\<lambda>n s. Inr (1::nat)" 10]
  by simp

text \<open>
  In the module as it is written (\<open>prompt_generator_globals\<close>) the first exception of the
  operation ends the run: the handlers cannot be selected, and \<open>NameError\<close> leaves the
  function after one invocation.
\<close>

lemma retry_api_call_unbound_name:
  assumes "0 < mx" "opr 0 False = Inl e"
  shows "outcome (retry_api_call prompt_generator_globals opr mx d)
           = Inl (NameError ''name 'custom_genai' is not defined'')
       \<and> calls (retry_api_call prompt_generator_globals opr mx d) = 1"
  using assms
  by (simp add: retry_api_call_def retry_loop.simps handle_exn_def prompt_generator_globals_def)

text \<open>
  C2: an operation that always raises an exception of the catch-all kind should be invoked
  exactly \<open>max_consecutive_failures\<close> times before \<open>None\<close> is returned.  In the module as
  it is written the name \<open>custom_genai\<close> is unbound, so the first failure already leaves
  \<open>retry_api_call\<close> with \<open>NameError\<close>: with a budget of 3 the operation is invoked once and
  nothing is returned.
\<close>

theorem retry_api_call_always_failing_NameError:
  "outcome (retry_api_call prompt_generator_globals
              (\<lambda>n s. Inl (OtherException ''boom'') :: exn + nat) 3 10)
     = Inl (NameError ''name 'custom_genai' is not defined'')
   \<and> calls (retry_api_call prompt_generator_globals
              (\<lambda>n s. Inl (OtherException ''boom'') :: exn + nat) 3 10) = 1"
  by (simp add: retry_api_call_def retry_loop.simps handle_exn_def prompt_generator_globals_def)

text \<open>
  C5: an operation that always raises the invalid-argument class without "safety" in the
  message should be invoked strictly fewer than \<open>max_consecutive_failures\<close> times, and
  \<open>None\<close> should then be returned.  In the module as it is written, with a budget of 25 and
  the default delay of 10, the operation is invoked once and \<open>NameError\<close> leaves the function:
  no \<open>None\<close> is returned, and the weight of 11 on the counter is never applied.
\<close>

theorem retry_api_call_invalid_argument_NameError:
  "outcome (retry_api_call prompt_generator_globals
              (\<lambda>n s. Inl (InvalidArgumentError ''bad request'') :: exn + nat) 25 RETRY_DELAY)
     = Inl (NameError ''name 'custom_genai' is not defined'')
   \<and> calls (retry_api_call prompt_generator_globals
              (\<lambda>n s. Inl (InvalidArgumentError ''bad request'') :: exn + nat) 25 RETRY_DELAY) = 1"
  by (simp add: retry_api_call_def retry_loop.simps handle_exn_def prompt_generator_globals_def)

text \<open>
  With the name bound the same operation is invoked 3 times at a budget of 25 and \<open>None\<close> is
  returned; at a budget of 1 it is invoked once.
\<close>

lemma retry_api_call_invalid_argument_examples:
  "outcome (retry_api_call (''custom_genai'' # prompt_generator_globals)
        (\<lambda>n s. Inl (InvalidArgumentError ''bad request'') :: exn + nat) 25 10) = Inr None"
  "calls (retry_api_call (''custom_genai'' # prompt_generator_globals)
        (\<lambda>n s. Inl (InvalidArgumentError ''bad request'') :: exn + nat) 25 10) = 3"
  "outcome (retry_api_call (''custom_genai'' # prompt_generator_globals)
        (\<lambda>n s. Inl (InvalidArgumentError ''bad request'') :: exn + nat) 1 10) = Inr None"
  "calls (retry_api_call (''custom_genai'' # prompt_generator_globals)
        (\<lambda>n s. Inl (InvalidArgumentError ''bad request'') :: exn + nat) 1 10) = 1"
proof -
  have b: "\<not> py_in ''safety'' (py_lower ''bad request'')" by code_simp
  have c: "\<forall>n s. \<exists>m. (Inl (InvalidArgumentError ''bad request'') :: exn + nat)
              = Inl (InvalidArgumentError m) \<and> \<not> py_in ''safety'' (py_lower m)"
    using b by blast
  have a: "''custom_genai'' \<in> set (''custom_genai'' # prompt_generator_globals)" by simp
  note r = retry_api_call_invalid_argument_bound [OF a c, of 10]
  show "outcome (retry_api_call (''custom_genai'' # prompt_generator_globals)
        (\<lambda>n s. Inl (InvalidArgumentError ''bad request'') :: exn + nat) 25 10) = Inr None"
    using r [of 25] by simp
  show "calls (retry_api_call (''custom_genai'' # prompt_generator_globals)
        (\<lambda>n s. Inl (InvalidArgumentError ''bad request'') :: exn + nat) 25 10) = 3"
    using r [of 25] by simp
  show "outcome (retry_api_call (''custom_genai'' # prompt_generator_globals)
        (\<lambda>n s. Inl (InvalidArgumentError ''bad request'') :: exn + nat) 1 10) = Inr None"
    using r [of 1] by simp
  show "calls (retry_api_call (''custom_genai'' # prompt_generator_globals)
        (\<lambda>n s. Inl (InvalidArgumentError ''bad request'') :: exn + nat) 1 10) = 1"
    using r [of 1] by simp
qed

section \<open>Properties of the image files\<close>

text \<open>
  Below 100 the format \<open>{n:02d}\<close> gives exactly two digits, so the lexicographic order of
  the paths of one directory is the order of their sequence numbers.
\<close>

lemma format_02d_two_digits:
  assumes "n < 100"
  shows "format_02d n = [digit_char (n div 10), digit_char (n mod 10)]"
proof (cases "n < 10")
  case True
  have z: "CHR ''0'' = char_of (48::nat)" by code_simp
  from True show ?thesis by (simp add: format_02d_def str_nat.simps [of n] digit_char_def z)
next
  case False
  then have "n div 10 < 10" using assms by simp
  then have "str_nat n = [digit_char (n div 10), digit_char (n mod 10)]"
    using False by (simp add: str_nat.simps [of n] str_nat.simps [of "n div 10"])
  then show ?thesis by (simp add: format_02d_def)
qed

lemma digit_char_less:
  assumes "a < 10" "b < 10"
  shows "digit_char a < digit_char b \<longleftrightarrow> a < b"
proof -
  have "of_char (char_of (48 + a) :: char) = 48 + a" "of_char (char_of (48 + b) :: char) = 48 + b"
    using assms by simp_all
  then show ?thesis by (simp add: digit_char_def less_char_def)
qed

lemma digit_char_eq:
  assumes "a < 10" "b < 10"
  shows "digit_char a = digit_char b \<longleftrightarrow> a = b"
proof
  assume e: "digit_char a = digit_char b"
  show "a = b"
  proof (rule ccontr)
    assume "a \<noteq> b"
    then consider "a < b" | "b < a" by linarith
    then show False using e digit_char_less [OF assms] digit_char_less [OF assms(2,1)] by cases simp_all
  qed
qed simp

lemma format_02d_less:
  assumes "m < 100" "n < 100"
  shows "format_02d m < format_02d n \<longleftrightarrow> m < n"
proof -
  have d: "m div 10 < 10" "n div 10 < 10" "m mod 10 < 10" "n mod 10 < 10" using assms by simp_all
  have lex: "10 * a + b < 10 * c + e \<longleftrightarrow> a < c \<or> (a = c \<and> b < e)"
    if "b < 10" "e < 10" for a b c e :: nat
    using that by linarith
  have "m = 10 * (m div 10) + m mod 10" "n = 10 * (n div 10) + n mod 10" by simp_all
  then have "m < n \<longleftrightarrow> m div 10 < n div 10 \<or> (m div 10 = n div 10 \<and> m mod 10 < n mod 10)"
    using lex [of "m mod 10" "n mod 10" "m div 10" "n div 10"] d(3,4) by metis
  then show ?thesis
    using d by (simp add: format_02d_two_digits assms digit_char_less digit_char_eq)
qed

lemma append_less_prefix: "(p @ a < p @ b) \<longleftrightarrow> (a < (b :: 'a :: linorder list))"
  by (induction p) simp_all

lemma append_less_suffix:
  "length a = length b \<Longrightarrow> (a @ s < b @ s) \<longleftrightarrow> (a < (b :: 'a :: linorder list))"
  by (induction a b rule: list_induct2) auto

lemma length_format_02d: "n < 100 \<Longrightarrow> length (format_02d n) = 2"
  by (simp add: format_02d_two_digits)

lemma image_path_less:
  assumes "m < 100" "n < 100"
  shows "image_path d m < image_path d n \<longleftrightarrow> m < n"
proof -
  have "(''image_'' @ format_02d m @ ''.png'' < ''image_'' @ format_02d n @ ''.png'') \<longleftrightarrow> m < n"
    using assms append_less_suffix [of "format_02d m" "format_02d n" "''.png''"]
    by (simp only: append_less_prefix length_format_02d format_02d_less)
  moreover have "\<not> startswith (''image_'' @ x) ''/''" for x by (simp add: startswith_def)
  ultimately show ?thesis
    unfolding image_path_def os_path_join_def
    by (cases "d = [] \<or> last d = CHR ''/''") (simp_all only: append_less_prefix if_False if_True)
qed


lemma sort_map_strict_mono:
  fixes f :: "'a :: linorder \<Rightarrow> 'b :: linorder"
  assumes "\<And>x y. x \<in> set xs \<Longrightarrow> y \<in> set xs \<Longrightarrow> x \<le> y \<Longrightarrow> f x \<le> f y"
  shows "sort (map f xs) = map f (sort xs)"
proof (rule properties_for_sort)
  show "mset (map f (sort xs)) = mset (map f xs)" by simp
  have "sorted_wrt (\<lambda>x y. f x \<le> f y) (sort xs)"
    by (rule sorted_wrt_mono_rel [of "sort xs" "(\<le>)"]) (use assms in auto)
  then show "sorted (map f (sort xs))" by (simp add: sorted_map)
qed

lemma sort_image_paths:
  assumes "\<forall>n \<in> set ns. n < 100"
  shows "sort (map (image_path temp_dir) ns) = map (image_path temp_dir) (sort ns)"
proof (rule sort_map_strict_mono)
  fix x y assume "x \<in> set ns" "y \<in> set ns" "x \<le> y"
  then have "x < 100" "y < 100" using assms by auto
  then show "image_path temp_dir x \<le> image_path temp_dir y"
    using image_path_less [of x y temp_dir] \<open>x \<le> y\<close> by (cases "x = y") auto
qed

lemma collect_images_map:
  "\<exists>ns. collect_images d c parts = map (image_path d) ns \<and> sorted ns
        \<and> (\<forall>n \<in> set ns. c < n \<and> n \<le> c + length parts)"
proof (induction parts arbitrary: c)
  case Nil
  then show ?case by simp
next
  case (Cons ok parts)
  obtain ns where ns: "collect_images d (c + 1) parts = map (image_path d) ns" "sorted ns"
    "\<forall>n \<in> set ns. c + 1 < n \<and> n \<le> c + 1 + length parts"
    using Cons.IH [of "c + 1"] by blast
  show ?case
  proof (cases ok)
    case True
    have "collect_images d c (ok # parts) = map (image_path d) ((c + 1) # ns)"
      using True ns(1) by simp
    moreover have "sorted ((c + 1) # ns)" using ns(2,3) by auto
    moreover have "\<forall>n \<in> set ((c + 1) # ns). c < n \<and> n \<le> c + length (ok # parts)"
      using ns(3) by auto
    ultimately show ?thesis by blast
  next
    case False
    have "collect_images d c (ok # parts) = map (image_path d) ns" using False ns(1) by simp
    moreover have "\<forall>n \<in> set ns. c < n \<and> n \<le> c + length (ok # parts)"
      using ns(3) by auto
    ultimately show ?thesis using ns(2) by blast
  qed
qed

lemma sorted_collect_images:
  assumes "length parts \<le> 99"
  shows "py_sorted (collect_images temp_dir 0 parts) = collect_images temp_dir 0 parts"
proof -
  obtain ns where ns: "collect_images temp_dir 0 parts = map (image_path temp_dir) ns"
    "sorted ns" "\<forall>n \<in> set ns. 0 < n \<and> n \<le> 0 + length parts"
    using collect_images_map [of temp_dir 0 parts] by blast
  have "\<forall>n \<in> set ns. n < 100" using ns(3) assms by auto
  then have "sort (map (image_path temp_dir) ns) = map (image_path temp_dir) (sort ns)"
    by (rule sort_image_paths)
  then show ?thesis using ns(1,2) by (simp add: py_sorted_def sorted_sort_id)
qed

text \<open>
  C8, as stated: every list of at most 99 generated paths is ordered by sequence number by
  \<open>sorted\<close>.  The counter \<open>image_count\<close> advances before an image is decoded and written
  (line 147), so a failed part uses up a number: of 100 parts of which only the 11th and the
  100th are written, the two paths generated are \<open>image_11.png\<close> and \<open>image_100.png\<close>, and
  \<open>sorted\<close> puts \<open>image_100.png\<close> first.
\<close>

theorem sorted_generated_paths_counterexample:
  "collect_images ''/tmp/t'' 0 (replicate 10 False @ [True] @ replicate 88 False @ [True])
     = [''/tmp/t/image_11.png'', ''/tmp/t/image_100.png'']
   \<and> py_sorted
        (collect_images ''/tmp/t'' 0 (replicate 10 False @ [True] @ replicate 88 False @ [True]))
     = [''/tmp/t/image_100.png'', ''/tmp/t/image_11.png'']"
  by code_simp

text \<open>
  C8, amended: the image with sequence number \<open>n\<close> from 1 to 99 is named \<open>image_\<close>, the two
  decimal digits of \<open>n\<close>, \<open>.png\<close>, in the one directory \<open>temp_dir\<close>; for every list of such
  paths whose sequence numbers all lie between 1 and 99, in any order, \<open>sorted\<close> returns
  them ordered by sequence number; and the list that a generation loop builds from at most
  99 parts with inline data is in the order of its sequence numbers and is left as it is by
  \<open>sorted\<close>.
\<close>

theorem sorted_image_paths_by_sequence_number:
  assumes "\<forall>n \<in> set ns. 1 \<le> n \<and> n \<le> 99"
  shows "py_sorted (map (image_path temp_dir) ns) = map (image_path temp_dir) (sort ns)
       \<and> (\<forall>n \<in> set ns. image_path temp_dir n
             = os_path_join temp_dir
                 (''image_'' @ [digit_char (n div 10), digit_char (n mod 10)] @ ''.png''))
       \<and> (length parts \<le> 99 \<longrightarrow>
            (\<exists>ms. collect_images temp_dir 0 parts = map (image_path temp_dir) ms \<and> sorted ms
                  \<and> (\<forall>n \<in> set ms. 1 \<le> n \<and> n \<le> 99))
            \<and> py_sorted (collect_images temp_dir 0 parts) = collect_images temp_dir 0 parts)"
proof (intro conjI impI ballI)
  have "\<forall>n \<in> set ns. n < 100" using assms by auto
  then show "py_sorted (map (image_path temp_dir) ns) = map (image_path temp_dir) (sort ns)"
    unfolding py_sorted_def by (rule sort_image_paths)
next
  fix n assume "n \<in> set ns"
  then have "n < 100" using assms by auto
  then show "image_path temp_dir n
             = os_path_join temp_dir
                 (''image_'' @ [digit_char (n div 10), digit_char (n mod 10)] @ ''.png'')"
    by (simp add: image_path_def format_02d_two_digits)
next
  assume l: "length parts \<le> 99"
  obtain ms where ms: "collect_images temp_dir 0 parts = map (image_path temp_dir) ms"
    "sorted ms" "\<forall>n \<in> set ms. 0 < n \<and> n \<le> 0 + length parts"
    using collect_images_map [of temp_dir 0 parts] by blast
  have "\<forall>n \<in> set ms. 1 \<le> n \<and> n \<le> 99" using ms(3) l by auto
  then show "\<exists>ms. collect_images temp_dir 0 parts = map (image_path temp_dir) ms \<and> sorted ms
                  \<and> (\<forall>n \<in> set ms. 1 \<le> n \<and> n \<le> 99)"
    using ms(1,2) by blast
next
  assume "length parts \<le> 99"
  then show "py_sorted (collect_images temp_dir 0 parts) = collect_images temp_dir 0 parts"
    by (rule sorted_collect_images)
qed

theorem sorted_image_paths_by_sequence_number_witness:
  "set [3, 1, 2 :: nat] \<subseteq> {1..99}
   \<and> py_sorted [image_path ''/tmp/t'' 3, image_path ''/tmp/t'' 1, image_path ''/tmp/t'' 2]
       = [image_path ''/tmp/t'' 1, image_path ''/tmp/t'' 2, image_path ''/tmp/t'' 3]
   \<and> image_path ''/tmp/t'' 3 = ''/tmp/t/image_03.png''
   \<and> length [True, False, True] \<le> 99
   \<and> collect_images ''/tmp/t'' 0 [True, False, True]
       = [''/tmp/t/image_01.png'', ''/tmp/t/image_03.png'']
   \<and> py_sorted (collect_images ''/tmp/t'' 0 [True, False, True])
       = collect_images ''/tmp/t'' 0 [True, False, True]"
proof -
  have h: "\<forall>n \<in> set [3, 1, 2 :: nat]. 1 \<le> n \<and> n \<le> 99" by simp
  have l: "length [True, False, True] \<le> 99" by simp
  have s: "sort [3, 1, 2 :: nat] = [1, 2, 3]" by simp
  note t = sorted_image_paths_by_sequence_number [OF h, of "''/tmp/t''" "[True, False, True]"]
  have 1: "py_sorted (map (image_path ''/tmp/t'') [3, 1, 2])
             = map (image_path ''/tmp/t'') (sort [3, 1, 2])"
    using t by (rule conjunct1)
  have 2: "py_sorted (collect_images ''/tmp/t'' 0 [True, False, True])
             = collect_images ''/tmp/t'' 0 [True, False, True]"
    using t l by blast
  have 3: "image_path ''/tmp/t'' 3 = ''/tmp/t/image_03.png''" by code_simp
  have 4: "collect_images ''/tmp/t'' 0 [True, False, True]
             = [''/tmp/t/image_01.png'', ''/tmp/t/image_03.png'']"
    by code_simp
  have 5: "py_sorted [image_path ''/tmp/t'' 3, image_path ''/tmp/t'' 1, image_path ''/tmp/t'' 2]
       = [image_path ''/tmp/t'' 1, image_path ''/tmp/t'' 2, image_path ''/tmp/t'' 3]"
    using 1 unfolding s by simp
  have 6: "set [3, 1, 2 :: nat] \<subseteq> {1..99}" by simp
  from 6 5 3 l 4 2 show ?thesis by (intro conjI)
qed

text \<open>
  The names are as the claim writes them, and the bound on the sequence numbers is needed:
  \<open>image_100.png\<close> sorts before \<open>image_11.png\<close>.
\<close>

lemma image_path_examples:
  "image_path ''/tmp/t'' 1 = ''/tmp/t/image_01.png''"
  "image_path ''/tmp/t'' 12 = ''/tmp/t/image_12.png''"
  "py_sorted [image_path ''/tmp/t'' 11, image_path ''/tmp/t'' 100]
     = [image_path ''/tmp/t'' 100, image_path ''/tmp/t'' 11]"
  by code_simp+

end
